theory Spec2Isabelle
  imports Complex_Main
begin

section \<open>Data model of slideshow.py\<close>

text \<open>
  A photo is the tuple \<open>(i, orientation, tags)\<close> appended by \<open>lire_input\<close>: the
  0-based record number, the orientation token as read, and the Python set of tag
  tokens. A slide is the tuple \<open>(photo_ids, tags)\<close> built by \<open>creer_slides\<close>.
\<close>

type_synonym photo = "nat \<times> string \<times> string set"
type_synonym slide = "nat list \<times> string set"

section \<open>calculer_score\<close>

text \<open>
  Python's \<open>min(a, b, c)\<close> walks its arguments from left to right and keeps the
  first smallest one.
\<close>

definition py_min3 :: "int \<Rightarrow> int \<Rightarrow> int \<Rightarrow> int" where
  "py_min3 a b c =
     (let m = a;
          m = (if b < m then b else m);
          m = (if c < m then c else m)
      in m)"

definition calculer_score :: "string set \<Rightarrow> string set \<Rightarrow> int" where
  "calculer_score tags1 tags2 =
     (let tags_communs = int (card (tags1 \<inter> tags2));
          tags_uniquement_1 = int (card (tags1 - tags2));
          tags_uniquement_2 = int (card (tags2 - tags1))
      in py_min3 tags_communs tags_uniquement_1 tags_uniquement_2)"

section \<open>lire_input\<close>

text \<open>
  The exceptions the loader can raise: \<open>int\<close> on a token that is no integer
  (\<open>ValueError\<close>) and an index past the end of the token list (\<open>IndexError\<close>).
\<close>

datatype py_error = ValueError | IndexError

text \<open>
  Text is modelled on ASCII input. White space is what \<open>str.split\<close> and \<open>str.strip\<close>
  without argument and \<open>int\<close> skip: the codes 9 to 13 and 28 to 32.
\<close>

definition is_space :: "char \<Rightarrow> bool" where
  "is_space c = (let k = (of_char c :: nat) in (9 \<le> k \<and> k \<le> 13) \<or> (28 \<le> k \<and> k \<le> 32))"

definition is_digit :: "char \<Rightarrow> bool" where
  "is_digit c = (let k = (of_char c :: nat) in 48 \<le> k \<and> k \<le> 57)"

definition digit_val :: "char \<Rightarrow> int" where
  "digit_val c = int (of_char c) - 48"

text \<open>\<open>s.split()\<close>: the maximal runs of characters that are not white space.\<close>

fun split_aux :: "string \<Rightarrow> string \<Rightarrow> string list" where
  "split_aux [] cur = (if cur = [] then [] else [cur])"
| "split_aux (c # cs) cur =
     (if is_space c then (if cur = [] then split_aux cs [] else cur # split_aux cs [])
      else split_aux cs (cur @ [c]))"

definition py_split :: "string \<Rightarrow> string list" where
  "py_split s = split_aux s []"

definition py_strip :: "string \<Rightarrow> string" where
  "py_strip s = rev (dropWhile is_space (rev (dropWhile is_space s)))"

text \<open>
  \<open>int(s)\<close> on a string, base 10: surrounding white space is dropped, one sign is
  allowed, then come decimal digits, where single underscores may stand between two
  digits. Anything else raises \<open>ValueError\<close>. (The cap that recent interpreters put
  on the number of digits, 4300 by default, is not modelled.)
\<close>

fun double_underscore :: "string \<Rightarrow> bool" where
  "double_underscore (a # b # cs) =
     ((a = CHR ''_'' \<and> b = CHR ''_'') \<or> double_underscore (b # cs))"
| "double_underscore _ = False"

definition py_digits :: "string \<Rightarrow> int option" where
  "py_digits body =
     (if body = [] \<or> \<not> list_all (\<lambda>c. is_digit c \<or> c = CHR ''_'') body
         \<or> hd body = CHR ''_'' \<or> last body = CHR ''_'' \<or> double_underscore body
      then None
      else Some (foldl (\<lambda>acc c. 10 * acc + digit_val c) 0 (filter is_digit body)))"

definition py_int :: "string \<Rightarrow> py_error + int" where
  "py_int s =
     (let t = py_strip s;
          (sign, body) = (case t of
              [] \<Rightarrow> (1, [])
            | c # cs \<Rightarrow> if c = CHR ''-'' then (- 1, cs)
                        else if c = CHR ''+'' then (1, cs) else (1, t))
      in case py_digits body of None \<Rightarrow> Inl ValueError | Some v \<Rightarrow> Inr (sign * v))"

text \<open>
  The slice \<open>xs[start:stop]\<close>: a negative bound counts from the end, and both bounds
  are clamped to the list, so a slice never raises.
\<close>

definition py_slice :: "'a list \<Rightarrow> int \<Rightarrow> int \<Rightarrow> 'a list" where
  "py_slice xs start stop =
     (let n = int (length xs);
          clamp = (\<lambda>k. if k < 0 then max (k + n) 0 else min k n);
          lo = clamp start;
          hi = clamp stop
      in take (nat (hi - lo)) (drop (nat lo) xs))"

text \<open>
  The open file is the list of its lines that are still to be read (without their
  line ends, which are white space to every reader here). \<open>f.readline()\<close> returns the
  next line and moves on; at the end of the file it returns the empty string.
\<close>

definition readline :: "string list \<Rightarrow> string \<times> string list" where
  "readline f = (case f of [] \<Rightarrow> ([], []) | l # ls \<Rightarrow> (l, ls))"

text \<open>
  The body of the loop, lines 12 to 16, for the record number \<open>i\<close> and the line just
  read. \<open>line[0]\<close> and \<open>line[1]\<close> raise \<open>IndexError\<close> on a list that is too short.
\<close>

definition lire_photo :: "nat \<Rightarrow> string \<Rightarrow> py_error + photo" where
  "lire_photo i raw =
     (let line = py_split (py_strip raw)
      in if length line < 1 then Inl IndexError
         else let orientation = line ! 0
         in if length line < 2 then Inl IndexError
         else case py_int (line ! 1) of
                Inl e \<Rightarrow> Inl e
              | Inr num_tags \<Rightarrow>
                  let tags = set (py_slice line 2 (2 + num_tags))
                  in Inr (i, orientation, tags))"

text \<open>The loop over \<open>range(n)\<close>: an exception ends it and is the result.\<close>

fun lire_boucle :: "nat list \<Rightarrow> string list \<Rightarrow> photo list \<Rightarrow> py_error + photo list" where
  "lire_boucle [] f photos = Inr photos"
| "lire_boucle (i # is) f photos =
     (case readline f of (raw, f') \<Rightarrow>
        (case lire_photo i raw of
           Inl e \<Rightarrow> Inl e
         | Inr p \<Rightarrow> lire_boucle is f' (photos @ [p])))"

text \<open>\<open>range(n)\<close> is empty for \<open>n \<le> 0\<close>.\<close>

definition lire_input :: "string list \<Rightarrow> py_error + photo list" where
  "lire_input f =
     (let photos = []
      in case readline f of (raw, f') \<Rightarrow>
           (case py_int raw of
              Inl e \<Rightarrow> Inl e
            | Inr n \<Rightarrow> lire_boucle [0 ..< nat n] f' photos))"

subsection \<open>Vocabulary of the input format\<close>




section \<open>creer_slides\<close>

text \<open>
  The slide of the pair \<open>(i, j)\<close> of vertical photos, lines 32 to 34: the two ids in
  this order and the union of the two tag sets.
\<close>

definition paire :: "(nat \<times> string set) list \<Rightarrow> nat \<Rightarrow> nat \<Rightarrow> slide" where
  "paire verticales i j =
     (case verticales ! i of (id1, tags1) \<Rightarrow>
      case verticales ! j of (id2, tags2) \<Rightarrow> ([id1, id2], tags1 \<union> tags2))"

text \<open>
  \<open>slides.extend\<close> and \<open>slides.append\<close> grow the list at its end; the two nested
  \<open>for\<close> loops over \<open>range\<close> are folds that pass the list on. Both indices stay
  below \<open>len(verticales)\<close>, so no read is out of range.
\<close>

definition creer_slides :: "photo list \<Rightarrow> slide list" where
  "creer_slides photos =
     (let slides = [];
          slides = slides @ map (\<lambda>(i, orientation, tags). ([i], tags))
                     (filter (\<lambda>(i, orientation, tags). orientation = ''H'') photos);
          verticales = map (\<lambda>(i, orientation, tags). (i, tags))
                     (filter (\<lambda>(i, orientation, tags). orientation = ''V'') photos)
      in fold (\<lambda>i slides.
                 fold (\<lambda>j slides. slides @ [paire verticales i j])
                      [i + 1 ..< length verticales] slides)
              [0 ..< length verticales] slides)"

subsection \<open>Vocabulary of the specification\<close>

text \<open>
  The horizontal and the vertical photos of a catalogue, in input order; the
  lexicographic order on index pairs; the index pairs \<open>i < j < V\<close> listed row by row.
\<close>

definition horizontales :: "photo list \<Rightarrow> photo list" where
  "horizontales photos = filter (\<lambda>p. fst (snd p) = ''H'') photos"

definition verticales_de :: "photo list \<Rightarrow> photo list" where
  "verticales_de photos = filter (\<lambda>p. fst (snd p) = ''V'') photos"

definition lex_lt :: "nat \<times> nat \<Rightarrow> nat \<times> nat \<Rightarrow> bool" where
  "lex_lt p q = (fst p < fst q \<or> (fst p = fst q \<and> snd p < snd q))"

definition paires_indices :: "nat \<Rightarrow> (nat \<times> nat) list" where
  "paires_indices V = concat (map (\<lambda>i. map (\<lambda>j. (i, j)) [i + 1 ..< V]) [0 ..< V])"

section \<open>construire_modele\<close>

text \<open>
  A decision variable \<open>slide_vars[i, pos]\<close> is named by its key \<open>(i, pos)\<close>. A
  linear constraint \<open>quicksum(vars) <= rhs\<close> or \<open>quicksum(vars) >= rhs\<close> is the
  list of the variables summed, its sense and its right-hand side. The model is the
  list of its variables, the list of its constraints in the order of the
  \<open>addConstr\<close> calls, and the objective as the list of its terms
  \<open>score * slide_vars[i, pos] * slide_vars[j, pos + 1]\<close>.
\<close>

type_synonym var = "nat \<times> nat"

datatype sense = LessEqual | GreaterEqual

datatype constr = Constr "var list" sense real

record modele =
  variables :: "var list"
  contraintes :: "constr list"
  objectif :: "(int \<times> var \<times> var) list"

text \<open>
  \<open>utilisations_photo\<close> is a dictionary from photo ids to lists of variables, kept
  in insertion order. Lines 67 to 69: a missing key starts with the empty list, then
  the list of the key is extended.
\<close>

fun dict_extend :: "(nat \<times> var list) list \<Rightarrow> nat \<Rightarrow> var list \<Rightarrow> (nat \<times> var list) list" where
  "dict_extend [] photo_id vs = [(photo_id, [] @ vs)]"
| "dict_extend ((k, l) # d) photo_id vs =
     (if k = photo_id then (k, l @ vs) # d else (k, l) # dict_extend d photo_id vs)"

definition utilisations_photo :: "slide list \<Rightarrow> (nat \<times> var list) list" where
  "utilisations_photo slides =
     fold (\<lambda>(slide_idx, (photo_ids, _)) d.
             fold (\<lambda>photo_id d.
                     dict_extend d photo_id (map (\<lambda>pos. (slide_idx, pos)) [0 ..< length slides]))
                  photo_ids d)
          (enumerate 0 slides) []"

text \<open>
  The constraints in the order of the source: one per position, one per slide, one
  per photo id, and the last one, which asks for a slide at position 0. The
  objective (lines 75 to 80) stands between the photo constraints and the last one in
  the source; \<open>range(len(slides) - 1)\<close> is empty for no slide and for one slide.
\<close>

definition construire_modele :: "slide list \<Rightarrow> modele" where
  "construire_modele slides =
     (let n = length slides;
          slide_vars = concat (map (\<lambda>i. map (\<lambda>pos. (i, pos)) [0 ..< n]) [0 ..< n]);
          c_pos = map (\<lambda>pos. Constr (map (\<lambda>i. (i, pos)) [0 ..< n]) LessEqual 1) [0 ..< n];
          c_slide = map (\<lambda>i. Constr (map (\<lambda>pos. (i, pos)) [0 ..< n]) LessEqual 1) [0 ..< n];
          c_photo = map (\<lambda>(photo_id, utilisations). Constr utilisations LessEqual 1)
                        (utilisations_photo slides);
          obj = concat (map (\<lambda>pos. concat (map (\<lambda>i. map (\<lambda>j.
                    (calculer_score (snd (slides ! i)) (snd (slides ! j)), (i, pos), (j, pos + 1)))
                    [0 ..< n]) [0 ..< n])) [0 ..< n - 1]);
          c_min = [Constr (map (\<lambda>i. (i, 0)) [0 ..< n]) GreaterEqual 1]
      in \<lparr> variables = slide_vars,
           contraintes = c_pos @ c_slide @ c_photo @ c_min,
           objectif = obj \<rparr>)"

subsection \<open>Assignments\<close>

text \<open>
  An assignment gives every variable its value (the attribute \<open>X\<close>). It satisfies a
  constraint when the sum of the values is on the right side of the bound, and it is
  feasible for a model when every variable of the model is binary and every
  constraint is satisfied.
\<close>

fun satisfait :: "(var \<Rightarrow> real) \<Rightarrow> constr \<Rightarrow> bool" where
  "satisfait x (Constr vs LessEqual r) = (sum_list (map x vs) \<le> r)"
| "satisfait x (Constr vs GreaterEqual r) = (sum_list (map x vs) \<ge> r)"

definition realisable :: "(var \<Rightarrow> real) \<Rightarrow> modele \<Rightarrow> bool" where
  "realisable x m =
     (list_all (\<lambda>v. x v = 0 \<or> x v = 1) (variables m) \<and> list_all (satisfait x) (contraintes m))"

section \<open>get_solution\<close>

text \<open>
  The inner loop, lines 98 to 101: the first slide index whose variable at this
  position exceeds 0.5, if there is one.
\<close>

definition chercher :: "(var \<Rightarrow> real) \<Rightarrow> nat \<Rightarrow> nat \<Rightarrow> nat option" where
  "chercher x n pos = find (\<lambda>i. x (i, pos) > 0.5) [0 ..< n]"

text \<open>
  The outer loop over the positions: the index found is appended, and the loop is
  left as soon as the list has not grown to \<open>pos + 1\<close> entries.
\<close>

fun get_solution_boucle :: "(var \<Rightarrow> real) \<Rightarrow> nat \<Rightarrow> nat list \<Rightarrow> nat list \<Rightarrow> nat list" where
  "get_solution_boucle x n [] slides_retenues = slides_retenues"
| "get_solution_boucle x n (pos # rest) slides_retenues =
     (let slides_retenues = (case chercher x n pos of
              Some i \<Rightarrow> slides_retenues @ [i]
            | None \<Rightarrow> slides_retenues)
      in if length slides_retenues \<noteq> pos + 1 then slides_retenues
         else get_solution_boucle x n rest slides_retenues)"

definition get_solution :: "(var \<Rightarrow> real) \<Rightarrow> slide list \<Rightarrow> nat list" where
  "get_solution x slides =
     (let n = length slides; slides_retenues = []
      in get_solution_boucle x n [0 ..< n] slides_retenues)"

subsection \<open>Example data\<close>

text \<open>
  The assignment in which no variable is set; the three candidate slides of the
  example of the specification (two horizontal photos and one pair of vertical
  ones); and the assignment that shows slide 0 at position 0 and slide 1 at
  position 1.
\<close>

definition affectation_nulle :: "var \<Rightarrow> real" where
  "affectation_nulle v = 0"

definition affectation_exemple :: "var \<Rightarrow> real" where
  "affectation_exemple v = (if v = (0, 0) \<or> v = (1, 1) then 1 else 0)"

definition slides_exemple :: "slide list" where
  "slides_exemple = [([0], {''cat'', ''dog''}), ([1], {''dog'', ''bird''}), ([2, 3], {''cat'', ''bird''})]"

section \<open>ecrire_solution\<close>

text \<open>
  \<open>str\<close> of a photo id (a natural number) in decimal, \<open>sep.join\<close>, and the text
  written to the output file: the number of slides, then one line per slide with
  its photo ids. The indices come from \<open>get_solution\<close> and are below
  \<open>len(slides)\<close>.
\<close>

fun str_nat :: "nat \<Rightarrow> string" where
  "str_nat n = (if n < 10 then [char_of (48 + n)]
                else str_nat (n div 10) @ [char_of (48 + n mod 10)])"

fun join :: "string \<Rightarrow> string list \<Rightarrow> string" where
  "join sep [] = []"
| "join sep [s] = s"
| "join sep (s # t # ts) = s @ sep @ join sep (t # ts)"

definition ecrire_solution :: "nat list \<Rightarrow> slide list \<Rightarrow> string" where
  "ecrire_solution slides_retenues slides =
     str_nat (length slides_retenues) @ [CHR 0x0A]
     @ concat (map (\<lambda>slide_idx.
                      let photo_ids = fst (slides ! slide_idx)
                      in join '' '' (map str_nat photo_ids) @ [CHR 0x0A])
                   slides_retenues)"

section \<open>main\<close>

text \<open>
  What a run of the program ends with: \<open>sys.exit(code)\<close> after a message was
  printed, an exception that nothing catches, or the output file written (its name
  and its text). The exceptions are the one of \<open>open\<close> on a missing input file,
  those of the loader, and the one raised by reading the attribute \<open>X\<close> of a
  variable when the solver holds no solution.
\<close>

datatype exception = OSError | Lecture py_error | AttributeError

datatype issue = Quitte int string | Exception exception | Ecrit string string

text \<open>
  The solver is outside the repository, so \<open>model.optimize()\<close> is a parameter: from
  the model and the parameters set on it (name and value), the values of the
  variables, or nothing when no solution is available. Failures of the solver
  library itself (licence, size limits) and of writing the output file are not
  modelled.
\<close>

type_synonym solveur = "modele \<Rightarrow> (string \<times> real) list \<Rightarrow> (var \<Rightarrow> real) option"

text \<open>
  \<open>get_solution\<close> on what the solver left: without a solution the first read of
  \<open>X\<close> raises; with no slide there is no read at all.
\<close>

fun valeurs_X :: "(var \<Rightarrow> real) option \<Rightarrow> slide list \<Rightarrow> exception + nat list" where
  "valeurs_X None slides = (if slides = [] then Inr [] else Inl AttributeError)"
| "valeurs_X (Some x) slides = Inr (get_solution x slides)"

text \<open>The usage message; its accented letter is the two bytes of its UTF-8 form.\<close>

definition usage :: string where
  "usage = ''Usage: python slideshow.py <fichier_entr'' @ [CHR 0xC3, CHR 0xA9] @ ''e>''"

text \<open>
  \<open>argv\<close> is \<open>sys.argv\<close>, the script name first; \<open>fs\<close> gives the lines of the
  files that can be opened for reading.
\<close>

definition main :: "string list \<Rightarrow> (string \<rightharpoonup> string list) \<Rightarrow> solveur \<Rightarrow> issue" where
  "main argv fs optimize =
     (if length argv \<noteq> 2 then Quitte 1 usage
      else
        let fichier_entree = argv ! 1;
            fichier_sortie = ''slideshow.sol''
        in case fs fichier_entree of
             None \<Rightarrow> Exception OSError
           | Some f \<Rightarrow>
               (case lire_input f of
                  Inl e \<Rightarrow> Exception (Lecture e)
                | Inr photos \<Rightarrow>
                    let slides = creer_slides photos;
                        model = construire_modele slides;
                        params = [(''TimeLimit'', 90)]
                    in case valeurs_X (optimize model params) slides of
                         Inl e \<Rightarrow> Exception e
                       | Inr slides_retenues \<Rightarrow>
                           Ecrit fichier_sortie (ecrire_solution slides_retenues slides)))"

subsection \<open>Example run\<close>

text \<open>
  A file system holding the input of the example of the specification, and a solver
  that returns the example assignment when, and only when, the parameters it is
  given are exactly \<open>TimeLimit = 90\<close>.
\<close>

definition fs_exemple :: "string \<rightharpoonup> string list" where
  "fs_exemple = [''in.txt'' \<mapsto> [''4'', ''H 2 cat dog'', ''H 2 dog bird'', ''V 1 cat'', ''V 1 bird'']]"

definition solveur_exemple :: solveur where
  "solveur_exemple model params =
     (if params = [(''TimeLimit'', 90)] then Some affectation_exemple else None)"

section \<open>Properties of the score\<close>

lemma py_min3_min: "py_min3 a b c = min a (min b c)"
  by (simp add: py_min3_def Let_def min_def)

text \<open>
  Claim C1. For all tag sets \<open>A\<close> and \<open>B\<close>, \<open>calculer_score A B\<close> is the
  non-negative integer \<open>min(|A \<inter> B|, |A - B|, |B - A|)\<close>; it is symmetric, and it is
  0 as soon as one of the three cardinalities is 0.
\<close>

theorem calculer_score_spec:
  "calculer_score A B = min (int (card (A \<inter> B))) (min (int (card (A - B))) (int (card (B - A))))
   \<and> 0 \<le> calculer_score A B
   \<and> calculer_score A B = calculer_score B A
   \<and> (card (A \<inter> B) = 0 \<or> card (A - B) = 0 \<or> card (B - A) = 0 \<longrightarrow> calculer_score A B = 0)"
proof -
  have eq: "\<And>X Y. calculer_score X Y
      = min (int (card (X \<inter> Y))) (min (int (card (X - Y))) (int (card (Y - X))))"
    by (simp add: calculer_score_def Let_def py_min3_min)
  have sym: "calculer_score A B = calculer_score B A"
    by (simp add: eq Int_commute min.left_commute min.commute)
  show ?thesis
    using sym by (auto simp: eq)
qed

theorem calculer_score_spec_witness:
  "card ({''a'', ''b''} \<inter> {''c''}) = 0 \<and> calculer_score {''a'', ''b''} {''c''} = 0"
  using calculer_score_spec [of "{''a'', ''b''}" "{''c''}"] by simp

section \<open>Properties of the slide generator\<close>

lemma fold_snoc: "fold (\<lambda>x acc. acc @ [g x]) xs acc = acc @ map g xs"
  by (induction xs arbitrary: acc) auto

lemma fold_append: "fold (\<lambda>x acc. acc @ G x) xs acc = acc @ concat (map G xs)"
  by (induction xs arbitrary: acc) auto

lemma boucle_paires:
  "fold (\<lambda>i slides. fold (\<lambda>j slides. slides @ [paire v i j]) [i + 1 ..< V] slides) [0 ..< V] acc
   = acc @ map (\<lambda>(i, j). paire v i j) (paires_indices V)"
  by (simp add: fold_snoc fold_append paires_indices_def map_concat comp_def)

lemma set_paires_indices: "set (paires_indices V) = {(i, j). i < j \<and> j < V}"
proof -
  have "\<And>a b. a < b \<Longrightarrow> b < V \<Longrightarrow> \<exists>x\<in>{0..<V}. (a, b) \<in> Pair x ` {Suc x..<V}"
    by (rule_tac x = a in bexI) auto
  then show ?thesis
    by (auto simp: paires_indices_def)
qed

lemma sorted_paires_prefix:
  "sorted_wrt lex_lt (concat (map (\<lambda>i. map (\<lambda>j. (i, j)) [i + 1 ..< V]) [0 ..< n]))"
proof (induction n)
  case 0
  show ?case by simp
next
  case (Suc n)
  have "sorted_wrt lex_lt (map (\<lambda>j. (n, j)) [n + 1 ..< V])"
    by (simp add: sorted_wrt_map lex_lt_def)
  moreover have "\<forall>p \<in> set (concat (map (\<lambda>i. map (\<lambda>j. (i, j)) [i + 1 ..< V]) [0 ..< n])).
      \<forall>q \<in> set (map (\<lambda>j. (n, j)) [n + 1 ..< V]). lex_lt p q"
    by (auto simp: lex_lt_def)
  ultimately show ?case
    using Suc by (simp add: sorted_wrt_append)
qed

lemma sorted_paires_indices: "sorted_wrt lex_lt (paires_indices V)"
  unfolding paires_indices_def by (rule sorted_paires_prefix)

lemma length_paires_prefix:
  "n \<le> V \<Longrightarrow> length (concat (map (\<lambda>i. map (\<lambda>j. (i, j)) [i + 1 ..< V]) [0 ..< n]))
     + ((V - n) choose 2) = V choose 2"
proof (induction n)
  case 0
  show ?case by simp
next
  case (Suc n)
  then obtain m where m: "V - n = Suc m" "V - Suc n = m"
    by (metis Suc_diff_Suc Suc_le_lessD)
  have "(Suc m) choose 2 = m + (m choose 2)"
    by (simp add: numeral_2_eq_2)
  with Suc m show ?case by simp
qed

lemma length_paires_indices: "length (paires_indices V) = V choose 2"
  using length_paires_prefix [of V V] by (simp add: paires_indices_def numeral_2_eq_2)

text \<open>The generator as one expression: the singleton slides, then the pair slides.\<close>

lemma creer_slides_eq:
  "creer_slides photos =
     map (\<lambda>p. ([fst p], snd (snd p))) (horizontales photos)
     @ map (\<lambda>(i, j). ([fst (verticales_de photos ! i), fst (verticales_de photos ! j)],
                       snd (snd (verticales_de photos ! i)) \<union> snd (snd (verticales_de photos ! j))))
           (paires_indices (length (verticales_de photos)))"
proof -
  let ?vs = "verticales_de photos"
  let ?v = "map (\<lambda>(i, orientation, tags). (i, tags))
              (filter (\<lambda>(i, orientation, tags). orientation = ''V'') photos)"
  have v: "?v = map (\<lambda>p. (fst p, snd (snd p))) ?vs"
    by (simp add: verticales_de_def case_prod_unfold)
  have h: "map (\<lambda>(i, orientation, tags). ([i], tags))
             (filter (\<lambda>(i, orientation, tags). orientation = ''H'') photos)
           = map (\<lambda>p. ([fst p], snd (snd p))) (horizontales photos)"
    by (simp add: horizontales_def case_prod_unfold)
  have p: "map (\<lambda>(i, j). paire ?v i j) (paires_indices (length ?v))
           = map (\<lambda>(i, j). ([fst (?vs ! i), fst (?vs ! j)],
                             snd (snd (?vs ! i)) \<union> snd (snd (?vs ! j))))
                 (paires_indices (length ?vs))"
    unfolding v by (auto simp: set_paires_indices paire_def)
  show ?thesis
    unfolding creer_slides_def Let_def boucle_paires h p
    by (simp add: v)
qed

text \<open>
  Claim C2. With \<open>H\<close> horizontal and \<open>V\<close> vertical photos the generator returns
  \<open>H + C(V, 2)\<close> slides: first the singleton slides of the horizontal photos in input
  order, then one slide for each index pair \<open>i < j < V\<close> of vertical photos, in
  lexicographic order of the pairs, holding the two ids and the union of the two tag
  sets. When the photo ids of the catalogue are pairwise different, as those assigned
  by \<open>lire_input\<close> are, the two ids of a pair slide differ.
\<close>

theorem creer_slides_spec:
  "length (creer_slides photos)
     = length (horizontales photos) + (length (verticales_de photos) choose 2)
   \<and> take (length (horizontales photos)) (creer_slides photos)
     = map (\<lambda>p. ([fst p], snd (snd p))) (horizontales photos)
   \<and> (\<exists>ps. sorted_wrt lex_lt ps
        \<and> set ps = {(i, j). i < j \<and> j < length (verticales_de photos)}
        \<and> drop (length (horizontales photos)) (creer_slides photos)
          = map (\<lambda>(i, j). ([fst (verticales_de photos ! i), fst (verticales_de photos ! j)],
                            snd (snd (verticales_de photos ! i))
                              \<union> snd (snd (verticales_de photos ! j)))) ps)
   \<and> (distinct (map fst photos) \<longrightarrow>
        (\<forall>s \<in> set (drop (length (horizontales photos)) (creer_slides photos)).
           \<exists>a b. fst s = [a, b] \<and> a \<noteq> b))"
proof -
  let ?vs = "verticales_de photos"
  let ?H = "length (horizontales photos)"
  let ?f = "\<lambda>(i, j). ([fst (?vs ! i), fst (?vs ! j)], snd (snd (?vs ! i)) \<union> snd (snd (?vs ! j)))"
  have len: "length (creer_slides photos) = ?H + (length ?vs choose 2)"
    by (simp add: creer_slides_eq length_paires_indices)
  have tk: "take ?H (creer_slides photos) = map (\<lambda>p. ([fst p], snd (snd p))) (horizontales photos)"
    by (simp add: creer_slides_eq)
  have dr: "drop ?H (creer_slides photos) = map ?f (paires_indices (length ?vs))"
    by (simp add: creer_slides_eq)
  have ex: "\<exists>ps. sorted_wrt lex_lt ps \<and> set ps = {(i, j). i < j \<and> j < length ?vs}
        \<and> drop ?H (creer_slides photos) = map ?f ps"
    using dr sorted_paires_indices set_paires_indices by blast
  have di: "\<forall>s \<in> set (drop ?H (creer_slides photos)). \<exists>a b. fst s = [a, b] \<and> a \<noteq> b"
    if d: "distinct (map fst photos)"
  proof
    fix s assume "s \<in> set (drop ?H (creer_slides photos))"
    then obtain i j where ij: "i < j" "j < length ?vs" and s: "s = ?f (i, j)"
      unfolding dr by (auto simp: set_paires_indices)
    have "distinct (map fst ?vs)"
      unfolding verticales_de_def using d by (rule distinct_map_filter)
    then have "fst (?vs ! i) \<noteq> fst (?vs ! j)"
      using nth_eq_iff_index_eq [of "map fst ?vs" i j] ij by simp
    then show "\<exists>a b. fst s = [a, b] \<and> a \<noteq> b"
      by (simp add: s)
  qed
  show ?thesis
    using len tk ex di by blast
qed

theorem creer_slides_spec_witness:
  "distinct (map fst [(0, ''V'', {''a''}), (1, ''V'', {''b''}), (2, ''V'', {''c''}), (3::nat, ''H'', {''d''})])
   \<and> length (creer_slides [(0, ''V'', {''a''}), (1, ''V'', {''b''}), (2, ''V'', {''c''}), (3, ''H'', {''d''})]) = 4"
  using creer_slides_spec [of "[(0, ''V'', {''a''}), (1, ''V'', {''b''}), (2, ''V'', {''c''}), (3, ''H'', {''d''})]"]
  by (simp add: horizontales_def verticales_de_def numeral_2_eq_2)

section \<open>Properties of the loader\<close>
















section \<open>Photos of unknown orientation\<close>




section \<open>The tag set of a photo\<close>




section \<open>Properties of the solution extractor\<close>

lemma chercher_Some:
  "chercher x n pos = Some i \<longleftrightarrow> (i < n \<and> x (i, pos) > 0.5 \<and> (\<forall>j < i. \<not> x (j, pos) > 0.5))"
  by (auto simp: chercher_def find_Some_iff)

lemma chercher_None: "chercher x n pos = None \<longleftrightarrow> (\<forall>i < n. \<not> x (i, pos) > 0.5)"
  by (auto simp: chercher_def find_None_iff)

lemma get_solution_boucle_spec:
  assumes "length acc = p" and "p \<le> n"
  shows "\<exists>k. p \<le> k \<and> k \<le> n
           \<and> length (get_solution_boucle x n [p ..< n] acc) = k
           \<and> take p (get_solution_boucle x n [p ..< n] acc) = acc
           \<and> (\<forall>pos. p \<le> pos \<and> pos < k \<longrightarrow>
                 chercher x n pos = Some (get_solution_boucle x n [p ..< n] acc ! pos))
           \<and> (k < n \<longrightarrow> chercher x n k = None)"
  using assms
proof (induction "n - p" arbitrary: p acc)
  case 0
  then have "p = n" by simp
  with "0.prems" show ?case by (intro exI [of _ n]) auto
next
  case (Suc d)
  then have lt: "p < n" by simp
  then have upt: "[p ..< n] = p # [Suc p ..< n]" by (simp add: upt_conv_Cons)
  show ?case
  proof (cases "chercher x n p")
    case None
    then have "get_solution_boucle x n [p ..< n] acc = acc"
      using Suc.prems by (simp add: upt)
    with None Suc.prems lt show ?thesis by (intro exI [of _ p]) auto
  next
    case (Some i)
    let ?acc = "acc @ [i]"
    let ?sol = "get_solution_boucle x n [Suc p ..< n] ?acc"
    have eq: "get_solution_boucle x n [p ..< n] acc = ?sol"
      using Some Suc.prems by (simp add: upt)
    have "d = n - Suc p" using Suc.hyps(2) by simp
    moreover have "length ?acc = Suc p" using Suc.prems by simp
    moreover have "Suc p \<le> n" using lt by simp
    ultimately obtain k where k: "Suc p \<le> k" "k \<le> n" "length ?sol = k"
      "take (Suc p) ?sol = ?acc"
      "\<forall>pos. Suc p \<le> pos \<and> pos < k \<longrightarrow> chercher x n pos = Some (?sol ! pos)"
      "k < n \<longrightarrow> chercher x n k = None"
      using Suc.hyps(1) [of "Suc p" ?acc] by blast
    have tk: "take p ?sol = acc"
    proof -
      have "take p ?sol = take p (take (Suc p) ?sol)" by (simp add: min_def)
      also have "\<dots> = acc" using Suc.prems(1) by (simp add: k(4))
      finally show ?thesis .
    qed
    have "?sol ! p = take (Suc p) ?sol ! p" by simp
    also have "\<dots> = i" using Suc.prems(1) by (auto simp: k(4) nth_append)
    finally have at: "?sol ! p = i" .
    have "\<forall>pos. p \<le> pos \<and> pos < k \<longrightarrow> chercher x n pos = Some (?sol ! pos)"
    proof (intro allI impI)
      fix pos assume "p \<le> pos \<and> pos < k"
      then consider "pos = p" | "Suc p \<le> pos \<and> pos < k" by force
      then show "chercher x n pos = Some (?sol ! pos)"
        using Some at k(5) by cases auto
    qed
    with k tk show ?thesis
      unfolding eq by (intro exI [of _ k]) simp
  qed
qed

text \<open>
  Claim C6. For every assignment the extractor returns, without raising, a list
  \<open>sol\<close> of at most \<open>len(slides)\<close> slide indices with one slide for each of the
  positions \<open>0, ..., len(sol) - 1\<close>: the entry at \<open>pos\<close> is the first slide index
  whose variable at \<open>pos\<close> exceeds 0.5. When the list is shorter than the number of
  slides, it stops at the first position where no variable exceeds 0.5.
\<close>

theorem get_solution_prefixe:
  "length (get_solution x slides) \<le> length slides
   \<and> (\<forall>pos < length (get_solution x slides).
         get_solution x slides ! pos < length slides
         \<and> x (get_solution x slides ! pos, pos) > 0.5
         \<and> (\<forall>j < get_solution x slides ! pos. \<not> x (j, pos) > 0.5))
   \<and> (length (get_solution x slides) < length slides \<longrightarrow>
         (\<forall>i < length slides. \<not> x (i, length (get_solution x slides)) > 0.5))"
proof -
  let ?n = "length slides"
  have sol: "get_solution x slides = get_solution_boucle x ?n [0 ..< ?n] []"
    by (simp add: get_solution_def Let_def)
  obtain k where k: "k \<le> ?n" "length (get_solution x slides) = k"
    "\<forall>pos. pos < k \<longrightarrow> chercher x ?n pos = Some (get_solution x slides ! pos)"
    "k < ?n \<longrightarrow> chercher x ?n k = None"
    using get_solution_boucle_spec [of "[]" 0 ?n x] unfolding sol by auto
  show ?thesis
    using k by (auto simp: chercher_Some chercher_None)
qed

theorem get_solution_prefixe_witness:
  "length (get_solution affectation_exemple slides_exemple) = 2
   \<and> length slides_exemple = 3
   \<and> get_solution affectation_exemple slides_exemple ! 1 < length slides_exemple
   \<and> affectation_exemple (get_solution affectation_exemple slides_exemple ! 1, 1) > 0.5
   \<and> \<not> affectation_exemple (0, length (get_solution affectation_exemple slides_exemple)) > 0.5"
proof -
  note t = get_solution_prefixe [of affectation_exemple slides_exemple]
  have s: "get_solution affectation_exemple slides_exemple = [0, 1]"
    by (simp add: get_solution_def chercher_def slides_exemple_def affectation_exemple_def
        Let_def upt_rec)
  have len: "length (get_solution affectation_exemple slides_exemple) = 2"
    by (simp add: s)
  have l: "length slides_exemple = 3"
    by (simp add: slides_exemple_def)
  have a: "get_solution affectation_exemple slides_exemple ! 1 < length slides_exemple
      \<and> affectation_exemple (get_solution affectation_exemple slides_exemple ! 1, 1) > 0.5"
    using t [THEN conjunct2, THEN conjunct1, rule_format, of 1] len by simp
  have b: "\<not> affectation_exemple (0, length (get_solution affectation_exemple slides_exemple)) > 0.5"
    using t [THEN conjunct2, THEN conjunct2, rule_format, of 0] len l by simp
  from len l a b show ?thesis by (intro conjI) simp_all
qed

section \<open>The photo dictionary of the model\<close>

text \<open>
  What the two nested loops of lines 65 to 69 leave in \<open>utilisations_photo\<close>: a
  key is never lost and its list only grows; the key of every photo id of a slide
  holds all the variables of that slide; every variable listed is one of the model;
  and the keys are pairwise different.
\<close>

lemma dict_extend_garde:
  "(k, l) \<in> set d \<Longrightarrow> \<exists>l'. (k, l') \<in> set (dict_extend d k' vs) \<and> set l \<subseteq> set l'"
  by (induction d k' vs rule: dict_extend.induct) auto

lemma dict_extend_ajoute:
  "\<exists>l. (k, l) \<in> set (dict_extend d k vs) \<and> set vs \<subseteq> set l"
  by (induction d k vs rule: dict_extend.induct) auto

lemma dict_extend_dans:
  "\<forall>e \<in> set d. set (snd e) \<subseteq> S \<Longrightarrow> set vs \<subseteq> S
   \<Longrightarrow> \<forall>e \<in> set (dict_extend d k vs). set (snd e) \<subseteq> S"
  by (induction d k vs rule: dict_extend.induct) auto

lemma boucle_ids_garde:
  "(k, l) \<in> set d \<Longrightarrow>
   \<exists>l'. (k, l') \<in> set (fold (\<lambda>photo_id d. dict_extend d photo_id vs) ids d) \<and> set l \<subseteq> set l'"
proof (induction ids arbitrary: d l)
  case Nil
  then show ?case by auto
next
  case (Cons a ids)
  obtain l1 where l1: "(k, l1) \<in> set (dict_extend d a vs)" "set l \<subseteq> set l1"
    using dict_extend_garde [OF Cons.prems] by blast
  obtain l2 where "(k, l2) \<in> set (fold (\<lambda>photo_id d. dict_extend d photo_id vs) ids (dict_extend d a vs))"
    "set l1 \<subseteq> set l2"
    using Cons.IH [OF l1(1)] by blast
  with l1(2) show ?case by auto
qed

lemma boucle_ids_ajoute:
  "k \<in> set ids \<Longrightarrow>
   \<exists>l. (k, l) \<in> set (fold (\<lambda>photo_id d. dict_extend d photo_id vs) ids d) \<and> set vs \<subseteq> set l"
proof (induction ids arbitrary: d)
  case Nil
  then show ?case by simp
next
  case (Cons a ids)
  show ?case
  proof (cases "k = a")
    case True
    obtain l1 where l1: "(k, l1) \<in> set (dict_extend d a vs)" "set vs \<subseteq> set l1"
      using dict_extend_ajoute [of k d vs] True by blast
    obtain l2 where "(k, l2) \<in> set (fold (\<lambda>photo_id d. dict_extend d photo_id vs) ids (dict_extend d a vs))"
      "set l1 \<subseteq> set l2"
      using boucle_ids_garde [OF l1(1)] by blast
    with l1(2) show ?thesis by auto
  next
    case False
    then have "k \<in> set ids" using Cons.prems by simp
    from Cons.IH [OF this] show ?thesis by simp
  qed
qed

lemma boucle_ids_dans:
  "\<forall>e \<in> set d. set (snd e) \<subseteq> S \<Longrightarrow> set vs \<subseteq> S
   \<Longrightarrow> \<forall>e \<in> set (fold (\<lambda>photo_id d. dict_extend d photo_id vs) ids d). set (snd e) \<subseteq> S"
proof (induction ids arbitrary: d)
  case Nil
  then show ?case by simp
next
  case (Cons a ids)
  have "\<forall>e \<in> set (dict_extend d a vs). set (snd e) \<subseteq> S"
    using Cons.prems by (rule dict_extend_dans)
  from Cons.IH [OF this Cons.prems(2)] show ?case by simp
qed

lemma boucle_slides_garde:
  "(k, l) \<in> set d \<Longrightarrow>
   \<exists>l'. (k, l') \<in> set (fold (\<lambda>(slide_idx, (photo_ids, _)) d.
             fold (\<lambda>photo_id d. dict_extend d photo_id (g slide_idx)) photo_ids d) es d)
        \<and> set l \<subseteq> set l'"
proof (induction es arbitrary: d l)
  case Nil
  then show ?case by auto
next
  case (Cons e es)
  obtain idx ids t where e: "e = (idx, (ids, t))" by (cases e) auto
  obtain l1 where l1: "(k, l1) \<in> set (fold (\<lambda>photo_id d. dict_extend d photo_id (g idx)) ids d)"
    "set l \<subseteq> set l1"
    using boucle_ids_garde [OF Cons.prems] by blast
  from Cons.IH [OF l1(1)] l1(2) show ?case
    by (auto simp: e)
qed

lemma boucle_slides_ajoute:
  "(idx, (ids, t)) \<in> set es \<Longrightarrow> k \<in> set ids \<Longrightarrow>
   \<exists>l. (k, l) \<in> set (fold (\<lambda>(slide_idx, (photo_ids, _)) d.
             fold (\<lambda>photo_id d. dict_extend d photo_id (g slide_idx)) photo_ids d) es d)
        \<and> set (g idx) \<subseteq> set l"
proof (induction es arbitrary: d)
  case Nil
  then show ?case by simp
next
  case (Cons e es)
  obtain idx' ids' t' where e: "e = (idx', (ids', t'))" by (cases e) auto
  show ?case
  proof (cases "e = (idx, (ids, t))")
    case True
    obtain l1 where l1: "(k, l1) \<in> set (fold (\<lambda>photo_id d. dict_extend d photo_id (g idx)) ids d)"
      "set (g idx) \<subseteq> set l1"
      using boucle_ids_ajoute [OF Cons.prems(2)] by blast
    from boucle_slides_garde [OF l1(1), of g es] l1(2) show ?thesis
      by (auto simp: True)
  next
    case False
    then have "(idx, (ids, t)) \<in> set es" using Cons.prems(1) by simp
    from Cons.IH [OF this Cons.prems(2)] show ?thesis
      by (simp add: e)
  qed
qed

lemma boucle_slides_dans:
  "\<forall>e \<in> set d. set (snd e) \<subseteq> S \<Longrightarrow> \<forall>e \<in> set es. set (g (fst e)) \<subseteq> S
   \<Longrightarrow> \<forall>e \<in> set (fold (\<lambda>(slide_idx, (photo_ids, _)) d.
             fold (\<lambda>photo_id d. dict_extend d photo_id (g slide_idx)) photo_ids d) es d).
         set (snd e) \<subseteq> S"
proof (induction es arbitrary: d)
  case Nil
  then show ?case by simp
next
  case (Cons e es)
  obtain idx ids t where e: "e = (idx, (ids, t))" by (cases e) auto
  have "set (g idx) \<subseteq> S" using Cons.prems(2) e by simp
  then have "\<forall>e \<in> set (fold (\<lambda>photo_id d. dict_extend d photo_id (g idx)) ids d). set (snd e) \<subseteq> S"
    using Cons.prems(1) boucle_ids_dans by blast
  moreover have "\<forall>e \<in> set es. set (g (fst e)) \<subseteq> S" using Cons.prems(2) by simp
  ultimately show ?case
    using Cons.IH by (simp add: e)
qed

lemma utilisations_photo_couvre:
  assumes "i < length slides" and "ph \<in> set (fst (slides ! i))" and "pos < length slides"
  shows "\<exists>l. (ph, l) \<in> set (utilisations_photo slides) \<and> (i, pos) \<in> set l"
proof -
  have "(i, (fst (slides ! i), snd (slides ! i))) \<in> set (enumerate 0 slides)"
    using assms(1) by (simp add: in_set_enumerate_eq)
  from boucle_slides_ajoute [OF this assms(2), of "\<lambda>idx. map (\<lambda>pos. (idx, pos)) [0 ..< length slides]" "[]"]
  obtain l where "(ph, l) \<in> set (utilisations_photo slides)"
    "set (map (\<lambda>pos. (i, pos)) [0 ..< length slides]) \<subseteq> set l"
    unfolding utilisations_photo_def by blast
  moreover have "(i, pos) \<in> set (map (\<lambda>pos. (i, pos)) [0 ..< length slides])"
    using assms(3) by simp
  ultimately show ?thesis by blast
qed

lemma utilisations_photo_dans:
  assumes "(ph, l) \<in> set (utilisations_photo slides)" and "v \<in> set l"
  shows "fst v < length slides \<and> snd v < length slides"
proof -
  let ?S = "{v. fst v < length slides \<and> snd v < length slides}"
  have "\<forall>e \<in> set (enumerate 0 slides). set (map (\<lambda>pos. (fst e, pos)) [0 ..< length slides]) \<subseteq> ?S"
    by (auto simp: in_set_enumerate_eq)
  then have "\<forall>e \<in> set (utilisations_photo slides). set (snd e) \<subseteq> ?S"
    unfolding utilisations_photo_def
    using boucle_slides_dans [of "[]" ?S "enumerate 0 slides"
        "\<lambda>idx. map (\<lambda>pos. (idx, pos)) [0 ..< length slides]"] by simp
  with assms(1) have "set (snd (ph, l)) \<subseteq> ?S" by blast
  with assms(2) show ?thesis by auto
qed

lemma dict_extend_keys:
  "map fst (dict_extend d k vs) = (if k \<in> set (map fst d) then map fst d else map fst d @ [k])"
  by (induction d k vs rule: dict_extend.induct) auto

lemma dict_extend_distinct:
  "distinct (map fst d) \<Longrightarrow> distinct (map fst (dict_extend d k vs))"
  by (simp add: dict_extend_keys)

lemma boucle_ids_distinct:
  "distinct (map fst d) \<Longrightarrow>
   distinct (map fst (fold (\<lambda>photo_id d. dict_extend d photo_id vs) ids d))"
  by (induction ids arbitrary: d) (simp_all add: dict_extend_distinct)

lemma boucle_slides_distinct:
  "distinct (map fst d) \<Longrightarrow>
   distinct (map fst (fold (\<lambda>(slide_idx, (photo_ids, _)) d.
             fold (\<lambda>photo_id d. dict_extend d photo_id (g slide_idx)) photo_ids d) es d))"
proof (induction es arbitrary: d)
  case Nil
  then show ?case by simp
next
  case (Cons e es)
  obtain idx ids t where e: "e = (idx, (ids, t))" by (cases e) auto
  have "distinct (map fst (fold (\<lambda>photo_id d. dict_extend d photo_id (g idx)) ids d))"
    using Cons.prems by (rule boucle_ids_distinct)
  from Cons.IH [OF this] show ?case by (simp add: e)
qed

lemma utilisations_photo_distinct: "distinct (map fst (utilisations_photo slides))"
  unfolding utilisations_photo_def by (rule boucle_slides_distinct) simp

lemma utilisations_photo_commune:
  assumes "i < length slides" and "j < length slides"
    and "p < length slides" and "q < length slides"
    and "ph \<in> set (fst (slides ! i))" and "ph \<in> set (fst (slides ! j))"
  shows "\<exists>l. (ph, l) \<in> set (utilisations_photo slides) \<and> (i, p) \<in> set l \<and> (j, q) \<in> set l"
proof -
  obtain l1 where l1: "(ph, l1) \<in> set (utilisations_photo slides)" "(i, p) \<in> set l1"
    using utilisations_photo_couvre [OF assms(1,5,3)] by blast
  obtain l2 where l2: "(ph, l2) \<in> set (utilisations_photo slides)" "(j, q) \<in> set l2"
    using utilisations_photo_couvre [OF assms(2,6,4)] by blast
  have "l1 = l2"
    using utilisations_photo_distinct l1(1) l2(1) by (rule eq_key_imp_eq_value)
  with l1 l2 show ?thesis by blast
qed

lemma deux_le_somme:
  fixes x :: "'a \<Rightarrow> real"
  assumes "\<forall>v \<in> set vs. 0 \<le> x v" and "a \<in> set vs" and "b \<in> set vs" and "a \<noteq> b"
  shows "x a + x b \<le> sum_list (map x vs)"
  using assms
proof (induction vs)
  case Nil
  then show ?case by simp
next
  case (Cons v vs)
  have nn: "\<And>y. y \<in> set (map x vs) \<Longrightarrow> 0 \<le> y" using Cons.prems(1) by auto
  have s0: "0 \<le> sum_list (map x vs)" using nn by (rule sum_list_nonneg)
  consider (a) "a = v" "b \<in> set vs" | (b) "b = v" "a \<in> set vs" | (c) "a \<in> set vs" "b \<in> set vs"
    using Cons.prems by auto
  then show ?case
  proof cases
    case a
    then have "x b \<le> sum_list (map x vs)"
      using nn by (intro member_le_sum_list) auto
    with a show ?thesis by simp
  next
    case b
    then have "x a \<le> sum_list (map x vs)"
      using nn by (intro member_le_sum_list) auto
    with b show ?thesis by simp
  next
    case c
    then have "x a + x b \<le> sum_list (map x vs)"
      using Cons.IH Cons.prems by simp
    moreover have "0 \<le> x v" using Cons.prems(1) by simp
    ultimately show ?thesis by simp
  qed
qed

lemma variables_modele:
  "set (variables (construire_modele slides))
     = {v. fst v < length slides \<and> snd v < length slides}"
  by (auto simp: construire_modele_def Let_def)

lemma contraintes_modele:
  "set (contraintes (construire_modele slides)) =
     (\<lambda>pos. Constr (map (\<lambda>i. (i, pos)) [0 ..< length slides]) LessEqual 1) ` {0 ..< length slides}
     \<union> (\<lambda>i. Constr (map (\<lambda>pos. (i, pos)) [0 ..< length slides]) LessEqual 1) ` {0 ..< length slides}
     \<union> (\<lambda>e. Constr (snd e) LessEqual 1) ` set (utilisations_photo slides)
     \<union> {Constr (map (\<lambda>i. (i, 0)) [0 ..< length slides]) GreaterEqual 1}"
  by (auto simp: construire_modele_def Let_def case_prod_unfold)

section \<open>Feasible assignments\<close>

text \<open>Two different variables of one constraint of the model are not both set.\<close>

lemma au_plus_une:
  assumes r: "realisable x (construire_modele slides)"
    and c: "Constr vs LessEqual 1 \<in> set (contraintes (construire_modele slides))"
    and g: "\<forall>v \<in> set vs. fst v < length slides \<and> snd v < length slides"
    and ab: "a \<in> set vs" "b \<in> set vs" "x a = 1" "x b = 1"
  shows "a = b"
proof (rule ccontr)
  assume "a \<noteq> b"
  have all: "\<forall>v \<in> set (variables (construire_modele slides)). x v = 0 \<or> x v = 1"
    using r by (simp add: realisable_def list_all_iff)
  have bin: "\<forall>v \<in> set vs. x v = 0 \<or> x v = 1"
  proof
    fix v assume "v \<in> set vs"
    then have "v \<in> set (variables (construire_modele slides))"
      using g by (simp add: variables_modele)
    with all show "x v = 0 \<or> x v = 1" by blast
  qed
  then have "\<forall>v \<in> set vs. 0 \<le> x v" by force
  then have "x a + x b \<le> sum_list (map x vs)"
    using ab(1,2) \<open>a \<noteq> b\<close> by (rule deux_le_somme)
  moreover have "sum_list (map x vs) \<le> 1"
    using r c by (auto simp: realisable_def list_all_iff)
  ultimately show False using ab(3,4) by simp
qed

lemma get_solution_chercher:
  "\<exists>k. k \<le> length slides \<and> length (get_solution x slides) = k
      \<and> (\<forall>pos < k. chercher x (length slides) pos = Some (get_solution x slides ! pos))
      \<and> (k < length slides \<longrightarrow> chercher x (length slides) k = None)"
  using get_solution_boucle_spec [of "[]" 0 "length slides" x]
  by (auto simp: get_solution_def Let_def)

lemma selection_binaire:
  assumes r: "realisable x (construire_modele slides)"
    and pos: "pos < length (get_solution x slides)"
  shows "get_solution x slides ! pos < length slides \<and> pos < length slides
         \<and> x (get_solution x slides ! pos, pos) = 1"
proof -
  obtain k where k: "k \<le> length slides" "length (get_solution x slides) = k"
    "\<forall>pos < k. chercher x (length slides) pos = Some (get_solution x slides ! pos)"
    using get_solution_chercher [of slides x] by blast
  have c: "chercher x (length slides) pos = Some (get_solution x slides ! pos)"
    using k pos by simp
  then have lt: "get_solution x slides ! pos < length slides"
    and gt: "x (get_solution x slides ! pos, pos) > 0.5"
    by (simp_all add: chercher_Some)
  have pl: "pos < length slides" using k pos by simp
  have "(get_solution x slides ! pos, pos) \<in> set (variables (construire_modele slides))"
    using lt pl by (simp add: variables_modele)
  then have "x (get_solution x slides ! pos, pos) = 0 \<or> x (get_solution x slides ! pos, pos) = 1"
    using r by (simp add: realisable_def list_all_iff)
  with gt have "x (get_solution x slides ! pos, pos) = 1" by auto
  with lt pl show ?thesis by simp
qed

lemma une_position_par_slide:
  assumes r: "realisable x (construire_modele slides)"
    and "i < length slides" "p < length slides" "q < length slides"
    and "x (i, p) = 1" "x (i, q) = 1"
  shows "p = q"
proof -
  let ?vs = "map (\<lambda>pos. (i, pos)) [0 ..< length slides]"
  have "Constr ?vs LessEqual 1 \<in> (\<lambda>i. Constr (map (\<lambda>pos. (i, pos)) [0 ..< length slides]) LessEqual 1)
      ` {0 ..< length slides}"
    using assms(2) by (intro image_eqI [where x = i]) simp_all
  then have "Constr ?vs LessEqual 1 \<in> set (contraintes (construire_modele slides))"
    unfolding contraintes_modele by blast
  moreover have "\<forall>v \<in> set ?vs. fst v < length slides \<and> snd v < length slides"
    using assms(2) by auto
  moreover have "(i, p) \<in> set ?vs" "(i, q) \<in> set ?vs" using assms(3,4) by auto
  ultimately have "(i, p) = (i, q)"
    using au_plus_une [OF r] assms(5,6) by blast
  then show ?thesis by simp
qed

lemma une_slide_par_position:
  assumes r: "realisable x (construire_modele slides)"
    and "pos < length slides" "i < length slides" "j < length slides"
    and "x (i, pos) = 1" "x (j, pos) = 1"
  shows "i = j"
proof -
  let ?vs = "map (\<lambda>i. (i, pos)) [0 ..< length slides]"
  have "Constr ?vs LessEqual 1 \<in> (\<lambda>pos. Constr (map (\<lambda>i. (i, pos)) [0 ..< length slides]) LessEqual 1)
      ` {0 ..< length slides}"
    using assms(2) by (intro image_eqI [where x = pos]) simp_all
  then have "Constr ?vs LessEqual 1 \<in> set (contraintes (construire_modele slides))"
    unfolding contraintes_modele by blast
  moreover have "\<forall>v \<in> set ?vs. fst v < length slides \<and> snd v < length slides"
    using assms(2) by auto
  moreover have "(i, pos) \<in> set ?vs" "(j, pos) \<in> set ?vs" using assms(3,4) by auto
  ultimately have "(i, pos) = (j, pos)"
    using au_plus_une [OF r] assms(5,6) by blast
  then show ?thesis by simp
qed

lemma une_slide_par_photo:
  assumes r: "realisable x (construire_modele slides)"
    and "i < length slides" "j < length slides" "p < length slides" "q < length slides"
    and "x (i, p) = 1" "x (j, q) = 1"
    and "ph \<in> set (fst (slides ! i))" "ph \<in> set (fst (slides ! j))"
  shows "i = j \<and> p = q"
proof -
  obtain l where l: "(ph, l) \<in> set (utilisations_photo slides)" "(i, p) \<in> set l" "(j, q) \<in> set l"
    using utilisations_photo_commune [OF assms(2,3,4,5,8,9)] by blast
  have "Constr l LessEqual 1 \<in> set (contraintes (construire_modele slides))"
    using l(1) by (force simp: contraintes_modele)
  moreover have "\<forall>v \<in> set l. fst v < length slides \<and> snd v < length slides"
    using utilisations_photo_dans [OF l(1)] by blast
  ultimately have "(i, p) = (j, q)"
    using au_plus_une [OF r] l(2,3) assms(6,7) by blast
  then show ?thesis by simp
qed

lemma realisable_exemple: "realisable affectation_exemple (construire_modele slides_exemple)"
  by (simp add: realisable_def construire_modele_def slides_exemple_def affectation_exemple_def
      utilisations_photo_def Let_def upt_rec enumerate_eq_zip)

lemma solution_exemple: "get_solution affectation_exemple slides_exemple = [0, 1]"
  by (simp add: get_solution_def chercher_def slides_exemple_def affectation_exemple_def
      Let_def upt_rec)

text \<open>
  Claim C3. An assignment that is binary on the variables of the model and satisfies
  its constraints sets, for each slide, the variable of at most one position; for
  each position, the variable of at most one slide; and never two variables of
  slides that share a photo id. Hence the extracted solution has no repeated slide
  index, and the slides at two different positions of it share no photo id.
\<close>

theorem unicite:
  assumes r: "realisable x (construire_modele slides)"
  shows "(\<forall>i < length slides. \<forall>p < length slides. \<forall>q < length slides.
            x (i, p) = 1 \<and> x (i, q) = 1 \<longrightarrow> p = q)
       \<and> (\<forall>pos < length slides. \<forall>i < length slides. \<forall>j < length slides.
            x (i, pos) = 1 \<and> x (j, pos) = 1 \<longrightarrow> i = j)
       \<and> (\<forall>i < length slides. \<forall>j < length slides. \<forall>p < length slides. \<forall>q < length slides.
            x (i, p) = 1 \<and> x (j, q) = 1
            \<and> set (fst (slides ! i)) \<inter> set (fst (slides ! j)) \<noteq> {} \<longrightarrow> i = j \<and> p = q)
       \<and> distinct (get_solution x slides)
       \<and> (\<forall>a < length (get_solution x slides). \<forall>b < length (get_solution x slides). a \<noteq> b \<longrightarrow>
            set (fst (slides ! (get_solution x slides ! a)))
              \<inter> set (fst (slides ! (get_solution x slides ! b))) = {})"
proof -
  let ?sol = "get_solution x slides"
  have A: "\<forall>i < length slides. \<forall>p < length slides. \<forall>q < length slides.
            x (i, p) = 1 \<and> x (i, q) = 1 \<longrightarrow> p = q"
    using une_position_par_slide [OF r] by blast
  have B: "\<forall>pos < length slides. \<forall>i < length slides. \<forall>j < length slides.
            x (i, pos) = 1 \<and> x (j, pos) = 1 \<longrightarrow> i = j"
    using une_slide_par_position [OF r] by blast
  have C: "\<forall>i < length slides. \<forall>j < length slides. \<forall>p < length slides. \<forall>q < length slides.
            x (i, p) = 1 \<and> x (j, q) = 1
            \<and> set (fst (slides ! i)) \<inter> set (fst (slides ! j)) \<noteq> {} \<longrightarrow> i = j \<and> p = q"
  proof (intro allI impI)
    fix i j p q
    assume "i < length slides" "j < length slides" "p < length slides" "q < length slides"
      and h: "x (i, p) = 1 \<and> x (j, q) = 1 \<and> set (fst (slides ! i)) \<inter> set (fst (slides ! j)) \<noteq> {}"
    moreover from h obtain ph where "ph \<in> set (fst (slides ! i))" "ph \<in> set (fst (slides ! j))"
      by blast
    ultimately show "i = j \<and> p = q"
      using une_slide_par_photo [OF r, of i j p q ph] by blast
  qed
  have D: "distinct ?sol"
    unfolding distinct_conv_nth
  proof (intro allI impI)
    fix a b assume ab: "a < length ?sol" "b < length ?sol" "a \<noteq> b"
    show "?sol ! a \<noteq> ?sol ! b"
    proof
      assume e: "?sol ! a = ?sol ! b"
      have "a = b"
        using une_position_par_slide [OF r, of "?sol ! a" a b]
          selection_binaire [OF r ab(1)] selection_binaire [OF r ab(2)] e by simp
      with ab(3) show False by simp
    qed
  qed
  have E: "\<forall>a < length ?sol. \<forall>b < length ?sol. a \<noteq> b \<longrightarrow>
            set (fst (slides ! (?sol ! a))) \<inter> set (fst (slides ! (?sol ! b))) = {}"
  proof (intro allI impI)
    fix a b assume ab: "a < length ?sol" "b < length ?sol" "a \<noteq> b"
    show "set (fst (slides ! (?sol ! a))) \<inter> set (fst (slides ! (?sol ! b))) = {}"
    proof (rule ccontr)
      assume "set (fst (slides ! (?sol ! a))) \<inter> set (fst (slides ! (?sol ! b))) \<noteq> {}"
      then obtain ph where "ph \<in> set (fst (slides ! (?sol ! a)))" "ph \<in> set (fst (slides ! (?sol ! b)))"
        by blast
      then have "a = b"
        using une_slide_par_photo [OF r, of "?sol ! a" "?sol ! b" a b ph]
          selection_binaire [OF r ab(1)] selection_binaire [OF r ab(2)] by simp
      with ab(3) show False by simp
    qed
  qed
  from A B C D E show ?thesis by (intro conjI)
qed

theorem unicite_witness:
  "realisable affectation_exemple (construire_modele slides_exemple)
   \<and> get_solution affectation_exemple slides_exemple = [0, 1]
   \<and> distinct (get_solution affectation_exemple slides_exemple)
   \<and> set (fst (slides_exemple ! 0)) \<inter> set (fst (slides_exemple ! 1)) = {}"
proof -
  note t = unicite [OF realisable_exemple]
  have d: "distinct (get_solution affectation_exemple slides_exemple)"
    using t by blast
  have "set (fst (slides_exemple ! (get_solution affectation_exemple slides_exemple ! 0)))
      \<inter> set (fst (slides_exemple ! (get_solution affectation_exemple slides_exemple ! 1))) = {}"
    using t [THEN conjunct2, THEN conjunct2, THEN conjunct2, THEN conjunct2, rule_format, of 0 1]
    by (simp add: solution_exemple)
  then have "set (fst (slides_exemple ! 0)) \<inter> set (fst (slides_exemple ! 1)) = {}"
    by (simp add: solution_exemple)
  with realisable_exemple solution_exemple d show ?thesis by (intro conjI)
qed

section \<open>The constraint on position 0\<close>

lemma somme_nulle: "\<forall>v \<in> set vs. x v = (0::real) \<Longrightarrow> sum_list (map x vs) = 0"
  by (induction vs) simp_all

text \<open>
  The assignment that sets no variable violates a constraint of the model built for
  the three slides of the example.
\<close>

theorem contrainte_position_zero:
  "\<not> list_all (satisfait affectation_nulle) (contraintes (construire_modele slides_exemple))"
  by (simp add: construire_modele_def slides_exemple_def affectation_nulle_def
      utilisations_photo_def Let_def upt_rec enumerate_eq_zip)

text \<open>
  Claim C4, as amended. The model constructor asks for a slide at position 0 (lines
  85 and 86), so the assignment that sets no variable violates a constraint of every
  model, and the empty sequence is not feasible: a feasible assignment exists only
  for a non-empty candidate universe, and the solution extracted from it is not
  empty. For the empty candidate universe the extractor returns the empty sequence.
\<close>

theorem position_zero_obligatoire:
  "\<not> list_all (satisfait affectation_nulle) (contraintes (construire_modele slides))
   \<and> (realisable x (construire_modele slides) \<longrightarrow> slides \<noteq> [] \<and> get_solution x slides \<noteq> [])
   \<and> get_solution x [] = []"
proof -
  let ?c = "Constr (map (\<lambda>i. (i, 0)) [0 ..< length slides]) GreaterEqual 1"
  have c: "?c \<in> set (contraintes (construire_modele slides))"
    by (simp add: contraintes_modele)
  have "\<not> satisfait affectation_nulle ?c"
    by (simp add: somme_nulle affectation_nulle_def)
  with c have 1: "\<not> list_all (satisfait affectation_nulle) (contraintes (construire_modele slides))"
    unfolding list_all_iff by blast
  have 2: "slides \<noteq> [] \<and> get_solution x slides \<noteq> []"
    if r: "realisable x (construire_modele slides)"
  proof -
    have "satisfait x ?c" using r c by (auto simp: realisable_def list_all_iff)
    then have ge: "1 \<le> sum_list (map x (map (\<lambda>i. (i, 0)) [0 ..< length slides]))" by simp
    have "\<not> (\<forall>v \<in> set (map (\<lambda>i. (i, 0)) [0 ..< length slides]). x v = 0)"
      using ge somme_nulle [of "map (\<lambda>i. (i, 0)) [0 ..< length slides]" x] by auto
    then obtain i where i: "i < length slides" "x (i, 0) \<noteq> 0" by auto
    have ne: "slides \<noteq> []"
    proof
      assume "slides = []"
      with i(1) show False by simp
    qed
    have "(i, 0) \<in> set (variables (construire_modele slides))"
      using i(1) ne by (simp add: variables_modele)
    then have "x (i, 0) = 0 \<or> x (i, 0) = 1"
      using r by (simp add: realisable_def list_all_iff)
    with i(2) have "x (i, 0) > 0.5" by auto
    with i(1) have some: "chercher x (length slides) 0 \<noteq> None"
      by (auto simp: chercher_None)
    obtain k where k: "length (get_solution x slides) = k"
      "k < length slides \<longrightarrow> chercher x (length slides) k = None"
      using get_solution_chercher [of slides x] by blast
    have "k \<noteq> 0"
    proof
      assume "k = 0"
      with k(2) ne have "chercher x (length slides) 0 = None" by simp
      with some show False by simp
    qed
    with k(1) ne show ?thesis by auto
  qed
  have 3: "get_solution x [] = []"
    by (simp add: get_solution_def)
  from 1 2 3 show ?thesis by blast
qed

theorem position_zero_obligatoire_witness:
  "realisable affectation_exemple (construire_modele slides_exemple)
   \<and> slides_exemple \<noteq> [] \<and> get_solution affectation_exemple slides_exemple \<noteq> []"
  using position_zero_obligatoire [of slides_exemple affectation_exemple] realisable_exemple
  by blast

section \<open>Properties of the driver\<close>

lemma main_exemple:
  "main [''slideshow.py'', ''in.txt''] fs_exemple solveur_exemple
     = Ecrit ''slideshow.sol'' (''2'' @ [CHR 0x0A] @ ''0'' @ [CHR 0x0A] @ ''1'' @ [CHR 0x0A])"
  by code_simp

text \<open>
  An argument \<open>time_limit_seconds=10\<close> is not an option of the program: it makes the
  argument count wrong, and the run ends with the usage message and exit code 1.
  Without it the solver is run under \<open>TimeLimit = 90\<close>.
\<close>

theorem option_inconnue:
  "main [''slideshow.py'', ''in.txt'', ''time_limit_seconds=10''] fs_exemple solveur_exemple
     = Quitte 1 usage
   \<and> main [''slideshow.py'', ''in.txt''] fs_exemple solveur_exemple
     = Ecrit ''slideshow.sol'' (''2'' @ [CHR 0x0A] @ ''0'' @ [CHR 0x0A] @ ''1'' @ [CHR 0x0A])"
  using main_exemple by (simp add: main_def)

text \<open>
  Claim C7, as amended. The time budget of the optimizer is the constant 90, set on
  the solver parameter \<open>TimeLimit\<close> in every run that reaches the solver; nothing in
  the arguments or in the input changes it: a run is the same as the run in which the
  solver is handed exactly \<open>TimeLimit = 90\<close>.
\<close>

theorem temps_limite_fixe:
  "main argv fs optimize = main argv fs (\<lambda>model params. optimize model [(''TimeLimit'', 90)])"
  unfolding main_def Let_def by (rule refl)

text \<open>
  Claim C8. With an argument count other than one input path (\<open>len(sys.argv) \<noteq> 2\<close>)
  the run prints the usage message and exits with code 1. A run that writes its
  output writes it to \<open>slideshow.sol\<close>. An exit with a message happens for a wrong
  argument count only; every other failure is an uncaught exception of a lower layer.
\<close>

theorem ligne_de_commande:
  "(length argv \<noteq> 2 \<longrightarrow> main argv fs optimize = Quitte 1 usage)
   \<and> (\<forall>nom contenu. main argv fs optimize = Ecrit nom contenu
         \<longrightarrow> length argv = 2 \<and> nom = ''slideshow.sol'')
   \<and> (\<forall>code message. main argv fs optimize = Quitte code message \<longrightarrow> length argv \<noteq> 2)"
  by (auto simp: main_def Let_def split: option.splits sum.splits if_splits)

theorem ligne_de_commande_witness:
  "length [''slideshow.py''] \<noteq> 2
   \<and> main [''slideshow.py''] fs_exemple solveur_exemple = Quitte 1 usage
   \<and> main [''slideshow.py'', ''in.txt''] fs_exemple solveur_exemple
       = Ecrit ''slideshow.sol'' (''2'' @ [CHR 0x0A] @ ''0'' @ [CHR 0x0A] @ ''1'' @ [CHR 0x0A])
   \<and> length [''slideshow.py'', ''in.txt''] = 2"
proof -
  note t = ligne_de_commande [of _ fs_exemple solveur_exemple]
  have a: "main [''slideshow.py''] fs_exemple solveur_exemple = Quitte 1 usage"
    using t [of "[''slideshow.py'']"] by simp
  have b: "length [''slideshow.py'', ''in.txt''] = 2"
    using t [of "[''slideshow.py'', ''in.txt'']"] main_exemple by blast
  from a b main_exemple show ?thesis by simp
qed

section \<open>The examples of the specification\<close>

text \<open>
  The score of two tag sets with two common tags and one tag on each side; the
  three pair slides of three vertical photos; and the end-to-end example: its
  catalogue, its three candidate slides, and the score of its two horizontal slides.
\<close>

lemma calculer_score_exemple:
  "calculer_score {''a'', ''b'', ''c''} {''b'', ''c'', ''d''} = 1"
  by code_simp

lemma creer_slides_trois_verticales:
  "creer_slides [(0, ''V'', {''a''}), (1, ''V'', {''b''}), (2, ''V'', {''c''})]
     = [([0, 1], {''a'', ''b''}), ([0, 2], {''a'', ''c''}), ([1, 2], {''b'', ''c''})]"
  by code_simp

lemma lire_input_exemple:
  "lire_input [''4'', ''H 2 cat dog'', ''H 2 dog bird'', ''V 1 cat'', ''V 1 bird'']
     = Inr [(0, ''H'', {''cat'', ''dog''}), (1, ''H'', {''dog'', ''bird''}),
            (2, ''V'', {''cat''}), (3, ''V'', {''bird''})]"
  by code_simp

lemma creer_slides_exemple:
  "creer_slides [(0, ''H'', {''cat'', ''dog''}), (1, ''H'', {''dog'', ''bird''}),
                 (2, ''V'', {''cat''}), (3, ''V'', {''bird''})] = slides_exemple"
  by code_simp

lemma score_exemple:
  "calculer_score (snd (slides_exemple ! 0)) (snd (slides_exemple ! 1)) = 1"
  by code_simp

text \<open>
  A negative count makes the slice count from the end of the line: the tag set is
  then what precedes the last tokens.
\<close>

lemma compte_negatif:
  "lire_photo 0 ''H -3 a b c'' = Inr (0, ''H'', {''a'', ''b''})"
  by code_simp

end
